theory Spec2Isabelle
  imports Main "HOL-Library.Multiset"
begin

section \<open>The column list editor of the database table editor\<close>

text \<open>
  The component \<open>ColumnList\<close> of
  \<open>chat2db-client/src/blocks/DatabaseTableEditor/ColumnList/index.tsx\<close> keeps two pieces
  of state, \<open>dataSource\<close> (the ordered list of column records) and \<open>editingKey\<close>
  (the key of the row in edit mode, the empty string at mount). Every handler of the
  component is embedded below as a function from the state before the event to the state
  after it.
\<close>

subsection \<open>Data model\<close>

text \<open>
  One row of the table metadata handed in by the parent (\<open>tableDetails.columnList\<close>).
  Its type is declared outside this file; the rows are read at the five properties
  \<open>name\<close>, \<open>dataType\<close>, \<open>columnType\<close>, \<open>nullable\<close> and \<open>comment\<close>. \<open>None\<close> stands for
  an absent (\<open>null\<close> or \<open>undefined\<close>) property.
\<close>

record TableColumn =
  name :: string
  dataType :: "int option"
  columnType :: "string option"
  nullable :: "int option"
  comment :: "string option"

record TableDetails =
  columnList :: "TableColumn list option"

text \<open>
  \<open>interface Item\<close>. The field \<open>length\<close> is \<open>number | null\<close> and \<open>fieldType\<close> is
  \<open>string | null\<close>; \<open>comment\<close> is no field of the interface, but the rows built from the
  table metadata carry it and the rows built by \<open>addData\<close> do not. The field \<open>length\<close> is
  written \<open>length_f\<close> here, since \<open>length\<close> is the length of a list.
\<close>

record Item =
  key :: string
  columnName :: string
  length_f :: "int option"
  fieldType :: "string option"
  nullable :: bool
  comment :: "string option"

text \<open>The two \<open>useState\<close> cells the handlers read and write.\<close>

record state =
  dataSource :: "Item list"
  editingKey :: string

definition initial :: state where
  "initial = \<lparr>dataSource = [], editingKey = ''''\<rparr>"

text \<open>
  The values of the form, as \<open>form.getFieldsValue()\<close> returns them: one entry for each
  field registered through a \<open>Form.Item\<close> (\<open>columnName\<close>, \<open>length\<close>, \<open>fieldType\<close>,
  \<open>nullable\<close>, \<open>comment\<close>); \<open>None\<close> is a field the object does not hold.
\<close>

record FormValues =
  v_columnName :: "string option"
  v_length :: "int option option"
  v_fieldType :: "string option option"
  v_nullable :: "bool option"
  v_comment :: "string option option"

subsection \<open>Array operations of the language and of the drag library\<close>

text \<open>
  \<open>Array.prototype.findIndex\<close>: the index of the first element that satisfies the
  predicate, \<open>-1\<close> when there is none.
\<close>

fun findIndex_from :: "('a \<Rightarrow> bool) \<Rightarrow> 'a list \<Rightarrow> int \<Rightarrow> int" where
  "findIndex_from P [] k = - 1"
| "findIndex_from P (x # xs) k = (if P x then k else findIndex_from P xs (k + 1))"

definition findIndex :: "('a \<Rightarrow> bool) \<Rightarrow> 'a list \<Rightarrow> int" where
  "findIndex P xs = findIndex_from P xs 0"

text \<open>
  \<open>Array.prototype.splice(start, deleteCount, ...items)\<close>: a negative \<open>start\<close> counts
  from the end, both numbers are clamped to the array. The result is the pair of the removed
  elements and the array after the call.
\<close>

definition splice :: "'a list \<Rightarrow> int \<Rightarrow> int \<Rightarrow> 'a list \<Rightarrow> 'a list \<times> 'a list" where
  "splice xs start deleteCount items =
     (let len = int (length xs);
          actualStart = (if start < 0 then max (len + start) 0 else min start len);
          actualDeleteCount = min (max deleteCount 0) (len - actualStart);
          s = nat actualStart;
          d = nat actualDeleteCount
      in (take d (drop s xs), take s xs @ items @ drop (s + d) xs))"

text \<open>
  \<open>arrayMove\<close> is imported from \<open>@dnd-kit/sortable\<close>; the library defines it as
  \<^verbatim>\<open>
  function arrayMove(array, from, to) {
    const newArray = array.slice();
    newArray.splice(to < 0 ? newArray.length + to : to, 0, newArray.splice(from, 1)[0]);
    return newArray;
  }
  \<close>
  The arguments of the outer \<open>splice\<close> are evaluated from left to right, so its start index
  is computed from the length before the inner \<open>splice\<close> removes the element. When the
  inner \<open>splice\<close> removes nothing, the inserted value is \<open>undefined\<close> and the result is no
  list of records any more: that is the result \<open>None\<close>.
\<close>

definition arrayMove :: "'a list \<Rightarrow> int \<Rightarrow> int \<Rightarrow> 'a list option" where
  "arrayMove array from to =
     (let start = (if to < 0 then int (length array) + to else to);
          (removed, newArray) = splice array from 1 []
      in case removed of
           [] \<Rightarrow> None
         | x # _ \<Rightarrow> Some (snd (splice newArray start 0 [x])))"

subsection \<open>The handlers\<close>

text \<open>\<open>edit\<close>: loads the record into the form and opens the edit session on its key.\<close>

definition edit :: "Item \<Rightarrow> state \<Rightarrow> state" where
  "edit record st = st\<lparr>editingKey := key record\<rparr>"

text \<open>
  The effect on \<open>tableDetails\<close>. \<open>uuidv4 n\<close> is the identifier the generator returns at
  its \<open>n\<close>-th call of this run of the effect; \<open>map\<close> calls it once for each row, in order.
  Nothing happens when \<open>tableDetails\<close> is absent.
\<close>

definition toItem :: "string \<Rightarrow> TableColumn \<Rightarrow> Item" where
  "toItem k t =
     \<lparr>key = k,
      columnName = name t,
      length_f = dataType t,
      fieldType = columnType t,
      nullable = (TableColumn.nullable t = Some 0),
      comment = TableColumn.comment t\<rparr>"

definition tableDetailsEffect :: "(nat \<Rightarrow> string) \<Rightarrow> TableDetails option \<Rightarrow> state \<Rightarrow> state" where
  "tableDetailsEffect uuidv4 tableDetails st =
     (case tableDetails of
        None \<Rightarrow> st
      | Some d \<Rightarrow>
          st\<lparr>dataSource :=
               (case columnList d of
                  None \<Rightarrow> []
                | Some cl \<Rightarrow> map (\<lambda>(n, t). toItem (uuidv4 n) t) (zip [0 ..< length cl] cl))\<rparr>)"

text \<open>
  \<open>onDragEnd\<close>: \<open>active\<close> is \<open>active.id\<close>, \<open>over\<close> is \<open>over?.id\<close>, which is
  \<open>undefined\<close> (\<open>None\<close>) when the row is dropped over no row. No record has the key
  \<open>undefined\<close>.
\<close>

definition onDragEnd :: "string \<Rightarrow> string option \<Rightarrow> state \<Rightarrow> state option" where
  "onDragEnd active over st =
     (if Some active \<noteq> over then
        (let previous = dataSource st;
             activeIndex = findIndex (\<lambda>i. key i = active) previous;
             overIndex = findIndex (\<lambda>i. Some (key i) = over) previous
         in map_option (\<lambda>l. st\<lparr>dataSource := l\<rparr>) (arrayMove previous activeIndex overIndex))
      else Some st)"

text \<open>\<open>formChange\<close>: the spread \<open>{...i, ...newData}\<close> of the form values over a record.\<close>

definition spread :: "Item \<Rightarrow> FormValues \<Rightarrow> Item" where
  "spread i newData =
     i\<lparr>columnName := (case v_columnName newData of None \<Rightarrow> columnName i | Some v \<Rightarrow> v),
       length_f := (case v_length newData of None \<Rightarrow> length_f i | Some v \<Rightarrow> v),
       fieldType := (case v_fieldType newData of None \<Rightarrow> fieldType i | Some v \<Rightarrow> v),
       nullable := (case v_nullable newData of None \<Rightarrow> nullable i | Some v \<Rightarrow> v),
       comment := (case v_comment newData of None \<Rightarrow> comment i | Some v \<Rightarrow> v)\<rparr>"

definition formChange :: "FormValues \<Rightarrow> state \<Rightarrow> state" where
  "formChange newData st =
     st\<lparr>dataSource :=
          map (\<lambda>i. if key i = editingKey st then spread i newData else i) (dataSource st)\<rparr>"

text \<open>\<open>addData\<close>: \<open>k\<close> is the identifier \<open>uuidv4()\<close> returns.\<close>

definition addData :: "string \<Rightarrow> state \<Rightarrow> state" where
  "addData k st =
     (let newData = \<lparr>key = k, columnName = '''', length_f = None, fieldType = None,
                     nullable = False, comment = None\<rparr>
      in edit newData (st\<lparr>dataSource := dataSource st @ [newData]\<rparr>))"

definition deleteData :: "state \<Rightarrow> state" where
  "deleteData st = st\<lparr>dataSource := filter (\<lambda>i. key i \<noteq> editingKey st) (dataSource st)\<rparr>"

datatype action = Up | Down

definition moveData :: "action \<Rightarrow> state \<Rightarrow> state" where
  "moveData action st =
     (let index = findIndex (\<lambda>i. key i = editingKey st) (dataSource st)
      in if index = - 1 then st
         else (case action of
                 Up \<Rightarrow>
                   if index = 0 then st
                   else (let newData = dataSource st;
                             newData = newData[nat index := dataSource st ! nat (index - 1)];
                             newData = newData[nat (index - 1) := dataSource st ! nat index]
                         in st\<lparr>dataSource := newData\<rparr>)
               | Down \<Rightarrow>
                   if index = int (length (dataSource st)) - 1 then st
                   else (let newData = dataSource st;
                             newData = newData[nat index := dataSource st ! nat (index + 1)];
                             newData = newData[nat (index + 1) := dataSource st ! nat index]
                         in st\<lparr>dataSource := newData\<rparr>)))"

subsection \<open>States of the component\<close>

text \<open>The column list holds every identifier once.\<close>

definition unique_ids :: "state \<Rightarrow> bool" where
  "unique_ids st = distinct (map key (dataSource st))"

text \<open>
  The edit session is set when \<open>editingKey\<close> is not the empty string it has at mount; it
  then points into the list when some record has that key.
\<close>

definition session_present :: "state \<Rightarrow> bool" where
  "session_present st =
     (editingKey st \<noteq> '''' \<longrightarrow> editingKey st \<in> key ` set (dataSource st))"

text \<open>
  The states the component reaches from its mount, one rule for each handler wired in the
  returned element: a click on a cell of a row (\<open>edit\<close> of that row's record), a change of
  \<open>tableDetails\<close>, a change in the form, the four buttons and the end of a drag. The
  identifiers \<open>uuidv4\<close> returns are not empty, differ from one another and from the keys in
  the list.
\<close>

inductive reachable :: "state \<Rightarrow> bool" where
  r_mount: "reachable initial"
| r_edit: "reachable st \<Longrightarrow> record \<in> set (dataSource st) \<Longrightarrow> reachable (edit record st)"
| r_tableDetails:
    "reachable st \<Longrightarrow> inj uuidv4 \<Longrightarrow> '''' \<notin> range uuidv4 \<Longrightarrow>
     reachable (tableDetailsEffect uuidv4 tableDetails st)"
| r_formChange: "reachable st \<Longrightarrow> reachable (formChange newData st)"
| r_addData:
    "reachable st \<Longrightarrow> k \<noteq> '''' \<Longrightarrow> k \<notin> key ` set (dataSource st) \<Longrightarrow>
     reachable (addData k st)"
| r_deleteData: "reachable st \<Longrightarrow> reachable (deleteData st)"
| r_moveData: "reachable st \<Longrightarrow> reachable (moveData action st)"
| r_onDragEnd: "reachable st \<Longrightarrow> onDragEnd active over st = Some st' \<Longrightarrow> reachable st'"

subsection \<open>Example data\<close>

text \<open>A record with the given key and name, and the list \<open>[A, B, C]\<close> of the examples.\<close>

definition row :: "string \<Rightarrow> Item" where
  "row k = \<lparr>key = k, columnName = k, length_f = None, fieldType = None,
            nullable = False, comment = None\<rparr>"

definition abc :: "string \<Rightarrow> state" where
  "abc e = \<lparr>dataSource = [row ''A'', row ''B'', row ''C''], editingKey = e\<rparr>"

text \<open>A generator of identifiers: \<open>u\<close>, \<open>uu\<close>, \<open>uuu\<close>, and so on.\<close>

definition uuid_example :: "nat \<Rightarrow> string" where
  "uuid_example n = replicate (Suc n) CHR ''u''"

definition columns_example :: "TableColumn list" where
  "columns_example =
     [\<lparr>name = ''id'', dataType = Some 4, columnType = Some ''INT'',
       TableColumn.nullable = Some 1, TableColumn.comment = None\<rparr>,
      \<lparr>name = ''note'', dataType = Some 12, columnType = Some ''VARCHAR'',
       TableColumn.nullable = Some 0, TableColumn.comment = Some ''free text''\<rparr>]"

definition name_x :: FormValues where
  "name_x = \<lparr>v_columnName = Some ''x'', v_length = None, v_fieldType = None,
             v_nullable = None, v_comment = None\<rparr>"

section \<open>The array operations\<close>

subsection \<open>\<open>findIndex\<close>\<close>

lemma findIndex_from_first:
  "i < length xs \<Longrightarrow> P (xs ! i) \<Longrightarrow> \<forall>n<i. \<not> P (xs ! n) \<Longrightarrow> findIndex_from P xs k = k + int i"
proof (induction xs arbitrary: i k)
  case Nil
  then show ?case by simp
next
  case (Cons x xs)
  show ?case
  proof (cases i)
    case 0
    with Cons.prems show ?thesis by simp
  next
    case (Suc m)
    from Cons.prems Suc have nx: "\<not> P x" by auto
    from Cons.prems Suc have "m < length xs" "P (xs ! m)" "\<forall>n<m. \<not> P (xs ! n)" by auto
    from Cons.IH[OF this] nx Suc show ?thesis by simp
  qed
qed

lemma findIndex_first:
  "i < length xs \<Longrightarrow> P (xs ! i) \<Longrightarrow> \<forall>n<i. \<not> P (xs ! n) \<Longrightarrow> findIndex P xs = int i"
  by (simp add: findIndex_def findIndex_from_first)

lemma findIndex_from_absent: "\<forall>x\<in>set xs. \<not> P x \<Longrightarrow> findIndex_from P xs k = - 1"
  by (induction xs arbitrary: k) auto

lemma findIndex_absent: "\<forall>x\<in>set xs. \<not> P x \<Longrightarrow> findIndex P xs = - 1"
  by (simp add: findIndex_def findIndex_from_absent)

lemma first_index_ex:
  "\<exists>x\<in>set xs. P x \<Longrightarrow> \<exists>i<length xs. P (xs ! i) \<and> (\<forall>n<i. \<not> P (xs ! n))"
proof (induction xs)
  case Nil
  then show ?case by simp
next
  case (Cons x xs)
  show ?case
  proof (cases "P x")
    case True
    then have "0 < length (x # xs) \<and> P ((x # xs) ! 0) \<and> (\<forall>n<0. \<not> P ((x # xs) ! n))" by simp
    then show ?thesis by blast
  next
    case False
    with Cons.prems have "\<exists>x\<in>set xs. P x" by auto
    from Cons.IH[OF this] obtain i where i: "i < length xs" "P (xs ! i)" "\<forall>n<i. \<not> P (xs ! n)" by blast
    have "\<forall>n<Suc i. \<not> P ((x # xs) ! n)"
    proof (intro allI impI)
      fix n assume "n < Suc i"
      then show "\<not> P ((x # xs) ! n)" using False i(3) by (cases n) auto
    qed
    with i show ?thesis by (intro exI[of _ "Suc i"]) simp
  qed
qed

lemma findIndex_cases:
  "findIndex P xs = - 1 \<and> (\<forall>x\<in>set xs. \<not> P x) \<or>
   (\<exists>i<length xs. findIndex P xs = int i \<and> P (xs ! i) \<and> (\<forall>n<i. \<not> P (xs ! n)))"
proof (cases "\<exists>x\<in>set xs. P x")
  case True
  from first_index_ex[OF True] obtain i where
    i: "i < length xs" "P (xs ! i)" "\<forall>n<i. \<not> P (xs ! n)" by blast
  then have "findIndex P xs = int i" by (rule findIndex_first)
  with i show ?thesis by blast
next
  case False
  then have "\<forall>x\<in>set xs. \<not> P x" by blast
  then show ?thesis by (simp add: findIndex_absent)
qed

subsection \<open>\<open>splice\<close> and \<open>arrayMove\<close>\<close>

lemma splice_remove1:
  "i < length xs \<Longrightarrow> splice xs (int i) 1 [] = ([xs ! i], take i xs @ drop (Suc i) xs)"
  by (simp add: splice_def Let_def take_Suc_conv_app_nth Cons_nth_drop_Suc[symmetric])

lemma splice_insert:
  "j \<le> length ys \<Longrightarrow> snd (splice ys (int j) 0 [x]) = take j ys @ [x] @ drop j ys"
  by (simp add: splice_def Let_def)

lemma splice_shape:
  "\<exists>s d. d \<le> nat (max dc 0) \<and>
     splice xs start dc items = (take d (drop s xs), take s xs @ items @ drop (s + d) xs)"
proof -
  define s where "s = nat (if start < 0 then max (int (length xs) + start) 0
                           else min start (int (length xs)))"
  define d where "d = nat (min (max dc 0)
          (int (length xs) - (if start < 0 then max (int (length xs) + start) 0
                              else min start (int (length xs)))))"
  have "d \<le> nat (max dc 0)" by (simp add: d_def)
  moreover have "splice xs start dc items =
      (take d (drop s xs), take s xs @ items @ drop (s + d) xs)"
    unfolding splice_def Let_def s_def d_def ..
  ultimately show ?thesis by blast
qed

lemma splice_remove_mset:
  assumes "splice xs f 1 [] = (x # r, ys)"
  shows "mset xs = add_mset x (mset ys)"
proof -
  from splice_shape[of 1 xs f "[]"] assms obtain s d where
    d1: "d \<le> 1" and eq: "take d (drop s xs) = x # r" "ys = take s xs @ drop (s + d) xs"
    by auto
  from eq(1) d1 have d: "d = 1" by (cases d) auto
  from eq(1) d have sl: "s < length xs" by (cases "s < length xs") auto
  from eq(1) d sl have x: "x = xs ! s"
    by (simp add: take_Suc_conv_app_nth Cons_nth_drop_Suc[symmetric])
  have "xs = take s xs @ [xs ! s] @ drop (Suc s) xs"
    using sl by (simp add: id_take_nth_drop[symmetric])
  then have "mset xs = mset (take s xs @ [xs ! s] @ drop (Suc s) xs)" by simp
  then have "mset xs = add_mset (xs ! s) (mset (take s xs @ drop (Suc s) xs))" by simp
  with x eq(2) d show ?thesis by simp
qed

lemma splice_insert_mset: "mset (snd (splice ys t 0 [x])) = add_mset x (mset ys)"
proof -
  from splice_shape[of 0 ys t "[x]"] obtain s where
    "snd (splice ys t 0 [x]) = take s ys @ [x] @ drop s ys" by auto
  moreover have "mset (take s ys) + mset (drop s ys) = mset ys"
    by (simp flip: mset_append)
  ultimately show ?thesis by simp
qed

lemma arrayMove_in_range:
  assumes "i < length xs" "j < length xs" "rest = take i xs @ drop (Suc i) xs"
  shows "arrayMove xs (int i) (int j) = Some (take j rest @ [xs ! i] @ drop j rest)"
proof -
  have rem: "splice xs (int i) 1 [] = ([xs ! i], rest)"
    using assms(1,3) by (simp only: splice_remove1)
  have "j \<le> length rest" using assms by simp
  then have ins: "snd (splice rest (int j) 0 [xs ! i]) = take j rest @ [xs ! i] @ drop j rest"
    by (rule splice_insert)
  show ?thesis
    unfolding arrayMove_def by (simp only: rem Let_def split list.case) (simp add: ins)
qed

lemma arrayMove_mset:
  assumes a: "arrayMove xs f t = Some ys"
  shows "mset ys = mset xs"
proof -
  obtain removed rest where sp: "splice xs f 1 [] = (removed, rest)"
    by (cases "splice xs f 1 []")
  from a sp obtain x r where rm: "removed = x # r"
    by (cases removed) (simp_all add: arrayMove_def Let_def)
  from splice_remove_mset[OF sp[unfolded rm]] have m: "mset xs = add_mset x (mset rest)" .
  from a sp rm have "ys = snd (splice rest (if t < 0 then int (length xs) + t else t) 0 [x])"
    by (simp add: arrayMove_def Let_def)
  then show ?thesis using m by (simp add: splice_insert_mset)
qed

lemma arrayMove_last:
  assumes "xs \<noteq> []"
  shows "\<exists>ys. arrayMove xs (- 1) t = Some ys"
proof -
  have "fst (splice xs (- 1) 1 []) = [last xs]"
    using assms by (simp add: splice_def Let_def take_Suc_conv_app_nth last_conv_nth
        Cons_nth_drop_Suc[symmetric] nat_diff_distrib')
  then show ?thesis
    by (cases "splice xs (- 1) 1 []") (simp add: arrayMove_def Let_def)
qed

lemma arrayMove_index:
  assumes "i < length xs"
  shows "\<exists>ys. arrayMove xs (int i) t = Some ys"
  using assms by (simp add: arrayMove_def Let_def splice_remove1)

subsection \<open>Lists with the same records\<close>

lemma mset_keys: "mset xs = mset ys \<Longrightarrow> key ` set xs = key ` set ys"
  by (metis set_mset_mset)

lemma mset_distinct_keys:
  "mset xs = mset ys \<Longrightarrow> distinct (map key xs) = distinct (map key ys)"
  by (metis mset_map mset_eq_imp_distinct_iff)

section \<open>The end of a drag\<close>

lemma onDragEnd_first_indices:
  assumes ab: "a \<noteq> b"
    and i: "i < length (dataSource st)" "key (dataSource st ! i) = a"
           "\<forall>n<i. key (dataSource st ! n) \<noteq> a"
    and j: "j < length (dataSource st)" "key (dataSource st ! j) = b"
           "\<forall>n<j. key (dataSource st ! n) \<noteq> b"
    and rest: "rest = take i (dataSource st) @ drop (Suc i) (dataSource st)"
  shows "onDragEnd a (Some b) st =
         Some (st\<lparr>dataSource := take j rest @ [dataSource st ! i] @ drop j rest\<rparr>)"
proof -
  have ai: "findIndex (\<lambda>r. key r = a) (dataSource st) = int i"
    using i by (intro findIndex_first) simp_all
  have bj: "findIndex (\<lambda>r. key r = b) (dataSource st) = int j"
    using j by (intro findIndex_first) simp_all
  show ?thesis
    using ab by (simp add: onDragEnd_def Let_def ai bj arrayMove_in_range[OF i(1) j(1) rest])
qed

lemma onDragEnd_mset:
  "onDragEnd a o' st = Some st' \<Longrightarrow>
   mset (dataSource st') = mset (dataSource st) \<and> editingKey st' = editingKey st"
  by (auto simp: onDragEnd_def Let_def split: if_splits dest: arrayMove_mset)

lemma onDragEnd_total:
  assumes "dataSource st \<noteq> []"
  shows "\<exists>st'. onDragEnd a o' st = Some st'"
proof (cases "Some a = o'")
  case True
  then show ?thesis by (simp add: onDragEnd_def)
next
  case False
  from findIndex_cases[of "\<lambda>i. key i = a" "dataSource st"]
  have "\<exists>ys. arrayMove (dataSource st) (findIndex (\<lambda>i. key i = a) (dataSource st))
         (findIndex (\<lambda>i. Some (key i) = o') (dataSource st)) = Some ys"
    using arrayMove_last[OF assms] arrayMove_index by metis
  with False show ?thesis by (auto simp: onDragEnd_def Let_def)
qed

lemma onDragEnd_same_id: "onDragEnd a (Some a) st = Some st"
  by (simp add: onDragEnd_def)

text \<open>
  Claim C1. Let \<open>a\<close> and \<open>b\<close> be two different identifiers of the list, \<open>i\<close> the index
  of the (first) record with key \<open>a\<close> and \<open>j\<close> the index of the (first) record with key
  \<open>b\<close>; in a list with unique identifiers these are the only records with those keys. The
  drag of \<open>a\<close> onto \<open>b\<close> then yields a list with the same records (a permutation, of the same
  length), the record that was at \<open>i\<close> is at index \<open>j\<close>, and the list without that record is
  the old list without it: the other records keep their relative order. The edit session is
  not touched.
\<close>

theorem onDragEnd_relocates:
  assumes ab: "a \<noteq> b"
    and i: "i < length (dataSource st)" "key (dataSource st ! i) = a"
           "\<forall>n<i. key (dataSource st ! n) \<noteq> a"
    and j: "j < length (dataSource st)" "key (dataSource st ! j) = b"
           "\<forall>n<j. key (dataSource st ! n) \<noteq> b"
  shows "\<exists>st'. onDragEnd a (Some b) st = Some st' \<and>
           editingKey st' = editingKey st \<and>
           mset (dataSource st') = mset (dataSource st) \<and>
           length (dataSource st') = length (dataSource st) \<and>
           dataSource st' ! j = dataSource st ! i \<and>
           take j (dataSource st') @ drop (Suc j) (dataSource st') =
             take i (dataSource st) @ drop (Suc i) (dataSource st)"
proof -
  define xs where "xs = dataSource st"
  define rest where "rest = take i xs @ drop (Suc i) xs"
  define ys where "ys = take j rest @ [xs ! i] @ drop j rest"
  have run: "onDragEnd a (Some b) st = Some (st\<lparr>dataSource := ys\<rparr>)"
    using onDragEnd_first_indices[OF ab i j] by (simp add: ys_def rest_def xs_def)
  have lrest: "length rest = length xs - 1" and jr: "j \<le> length rest"
    using i(1) j(1) by (simp_all add: rest_def xs_def)
  have xs_split: "xs = take i xs @ [xs ! i] @ drop (Suc i) xs"
    using i(1) by (simp add: xs_def id_take_nth_drop[symmetric])
  have "mset xs = mset (take i xs) + {#xs ! i#} + mset (drop (Suc i) xs)"
    by (subst xs_split) simp
  then have m_xs: "mset xs = add_mset (xs ! i) (mset rest)"
    by (simp add: rest_def)
  have tr: "mset (take j rest) + mset (drop j rest) = mset rest"
    by (simp flip: mset_append)
  have m_ys: "mset ys = mset xs"
    using tr m_xs by (simp add: ys_def)
  have "size (mset ys) = size (mset xs)"
    by (simp only: m_ys)
  then have len: "length ys = length xs"
    by simp
  have at_j: "ys ! j = xs ! i"
    using jr by (simp add: ys_def nth_append)
  have others: "take j ys @ drop (Suc j) ys = rest"
    using jr by (simp add: ys_def)
  show ?thesis
    using run m_ys len at_j others by (simp add: xs_def rest_def)
qed

theorem onDragEnd_relocates_witness:
  "''C'' \<noteq> ''A'' \<and> key (dataSource (abc '''') ! 2) = ''C'' \<and> key (dataSource (abc '''') ! 0) = ''A'' \<and>
   (\<exists>st'. onDragEnd ''C'' (Some ''A'') (abc '''') = Some st' \<and>
      editingKey st' = '''' \<and>
      mset (dataSource st') = mset [row ''A'', row ''B'', row ''C''] \<and>
      dataSource st' ! 0 = row ''C'' \<and>
      take 0 (dataSource st') @ drop (Suc 0) (dataSource st') = [row ''A'', row ''B''])"
proof -
  have h1: "''C'' \<noteq> ''A''" by simp
  have h2: "2 < length (dataSource (abc ''''))" "key (dataSource (abc '''') ! 2) = ''C''"
    "\<forall>n<2. key (dataSource (abc '''') ! n) \<noteq> ''C''"
    by (simp_all add: abc_def row_def less_2_cases_iff)
  have h3: "0 < length (dataSource (abc ''''))" "key (dataSource (abc '''') ! 0) = ''A''"
    "\<forall>n<0. key (dataSource (abc '''') ! n) \<noteq> ''A''"
    by (simp_all add: abc_def row_def)
  show ?thesis
    using onDragEnd_relocates[OF h1 h2 h3] h2(2) h3(2) by (auto simp: abc_def)
qed

text \<open>
  Claim C3. The drag of a row onto itself changes nothing (\<open>onDragEnd_same_id\<close>). An
  identifier that is not in the list is not ignored, though: \<open>findIndex\<close> answers \<open>-1\<close> and
  \<open>arrayMove\<close> takes that index as the last position. In the list \<open>[A, B, C]\<close>, the row
  \<open>B\<close> dropped over no row (\<open>over\<close> is \<open>null\<close>) goes to the end, and a drag whose active
  identifier \<open>Z\<close> is unknown moves the last row \<open>C\<close> to the place of \<open>A\<close>.
\<close>

theorem onDragEnd_absent_id_moves:
  "map_option dataSource (onDragEnd ''B'' None (abc '''')) = Some [row ''A'', row ''C'', row ''B''] \<and>
   map_option dataSource (onDragEnd ''Z'' (Some ''A'') (abc '''')) =
     Some [row ''C'', row ''A'', row ''B'']"
  by (simp add: onDragEnd_def findIndex_def arrayMove_def splice_def Let_def abc_def row_def)

section \<open>The buttons up and down\<close>

lemma moveData_absent:
  assumes "editingKey st \<notin> key ` set (dataSource st)"
  shows "moveData action st = st"
proof -
  have "findIndex (\<lambda>i. key i = editingKey st) (dataSource st) = - 1"
    using assms by (intro findIndex_absent) (auto simp: image_iff)
  then show ?thesis by (simp add: moveData_def)
qed

lemma moveData_Up_at:
  assumes "i < length (dataSource st)" "key (dataSource st ! i) = editingKey st"
    "\<forall>n<i. key (dataSource st ! n) \<noteq> editingKey st"
  shows "moveData Up st =
    (if i = 0 then st
     else st\<lparr>dataSource := (dataSource st)[i := dataSource st ! (i - 1), i - 1 := dataSource st ! i]\<rparr>)"
proof -
  have f: "findIndex (\<lambda>r. key r = editingKey st) (dataSource st) = int i"
    using assms by (intro findIndex_first) simp_all
  have n: "nat (int i - 1) = i - 1" by simp
  show ?thesis by (simp add: moveData_def f n Let_def)
qed

lemma moveData_Down_at:
  assumes "i < length (dataSource st)" "key (dataSource st ! i) = editingKey st"
    "\<forall>n<i. key (dataSource st ! n) \<noteq> editingKey st"
  shows "moveData Down st =
    (if i = length (dataSource st) - 1 then st
     else st\<lparr>dataSource := (dataSource st)[i := dataSource st ! (i + 1), i + 1 := dataSource st ! i]\<rparr>)"
proof -
  have f: "findIndex (\<lambda>r. key r = editingKey st) (dataSource st) = int i"
    using assms by (intro findIndex_first) simp_all
  have n: "nat (int i + 1) = i + 1" by simp
  have e: "(int i = int (length (dataSource st)) - 1) = (i = length (dataSource st) - 1)"
    using assms(1) by auto
  show ?thesis by (simp add: moveData_def f n e Let_def)
qed

lemma moveData_mset:
  "mset (dataSource (moveData action st)) = mset (dataSource st) \<and>
   editingKey (moveData action st) = editingKey st"
proof (cases "editingKey st \<in> key ` set (dataSource st)")
  case False
  then show ?thesis by (simp add: moveData_absent)
next
  case True
  then have "\<exists>x\<in>set (dataSource st). key x = editingKey st" by auto
  from first_index_ex[OF this] obtain i where
    i: "i < length (dataSource st)" "key (dataSource st ! i) = editingKey st"
    "\<forall>n<i. key (dataSource st ! n) \<noteq> editingKey st" by blast
  show ?thesis
  proof (cases action)
    case Up
    have "i \<noteq> 0 \<Longrightarrow> i - 1 < length (dataSource st)" using i(1) by simp
    then show ?thesis using i(1) by (simp add: Up moveData_Up_at[OF i] mset_swap)
  next
    case Down
    have "i \<noteq> length (dataSource st) - 1 \<Longrightarrow> i + 1 < length (dataSource st)"
      using i(1) by simp
    then show ?thesis using i(1) by (simp add: Down moveData_Down_at[OF i] mset_swap)
  qed
qed

text \<open>
  Claim C6. Let \<open>i\<close> be the index of the (first) record with the key of the edit session.
  \<open>moveData\<close> up at the first index and down at the last index leave the state as it is.
  Otherwise the records at \<open>i\<close> and at its neighbour (\<open>i - 1\<close> going up, \<open>i + 1\<close> going
  down) change places, every other index keeps its record, and the length and the edit
  session stay.
\<close>

theorem moveData_neighbour:
  assumes "i < length (dataSource st)" "key (dataSource st ! i) = editingKey st"
    "\<forall>n<i. key (dataSource st ! n) \<noteq> editingKey st"
  shows "(i = 0 \<longrightarrow> moveData Up st = st) \<and>
         (i = length (dataSource st) - 1 \<longrightarrow> moveData Down st = st) \<and>
         (0 < i \<longrightarrow>
            editingKey (moveData Up st) = editingKey st \<and>
            length (dataSource (moveData Up st)) = length (dataSource st) \<and>
            dataSource (moveData Up st) ! (i - 1) = dataSource st ! i \<and>
            dataSource (moveData Up st) ! i = dataSource st ! (i - 1) \<and>
            (\<forall>n<length (dataSource st). n \<noteq> i \<and> n \<noteq> i - 1 \<longrightarrow>
               dataSource (moveData Up st) ! n = dataSource st ! n)) \<and>
         (i < length (dataSource st) - 1 \<longrightarrow>
            editingKey (moveData Down st) = editingKey st \<and>
            length (dataSource (moveData Down st)) = length (dataSource st) \<and>
            dataSource (moveData Down st) ! (i + 1) = dataSource st ! i \<and>
            dataSource (moveData Down st) ! i = dataSource st ! (i + 1) \<and>
            (\<forall>n<length (dataSource st). n \<noteq> i \<and> n \<noteq> i + 1 \<longrightarrow>
               dataSource (moveData Down st) ! n = dataSource st ! n))"
proof (intro conjI impI)
  show "moveData Up st = st" if "i = 0"
    using that by (simp add: moveData_Up_at[OF assms])
  show "moveData Down st = st" if "i = length (dataSource st) - 1"
    using that by (simp add: moveData_Down_at[OF assms])
next
  assume p: "0 < i"
  then have up: "dataSource (moveData Up st) =
      (dataSource st)[i := dataSource st ! (i - 1), i - 1 := dataSource st ! i]"
    and ek: "editingKey (moveData Up st) = editingKey st"
    by (simp_all add: moveData_Up_at[OF assms])
  show "editingKey (moveData Up st) = editingKey st" by (rule ek)
  show "length (dataSource (moveData Up st)) = length (dataSource st)" by (simp add: up)
  show "dataSource (moveData Up st) ! (i - 1) = dataSource st ! i"
    using assms(1) p by (simp add: up)
  show "dataSource (moveData Up st) ! i = dataSource st ! (i - 1)"
    using assms(1) p by (simp add: up)
  show "\<forall>n<length (dataSource st). n \<noteq> i \<and> n \<noteq> i - 1 \<longrightarrow>
      dataSource (moveData Up st) ! n = dataSource st ! n"
    by (simp add: up)
next
  assume p: "i < length (dataSource st) - 1"
  then have down: "dataSource (moveData Down st) =
      (dataSource st)[i := dataSource st ! (i + 1), i + 1 := dataSource st ! i]"
    and ek: "editingKey (moveData Down st) = editingKey st"
    by (simp_all add: moveData_Down_at[OF assms])
  show "editingKey (moveData Down st) = editingKey st" by (rule ek)
  show "length (dataSource (moveData Down st)) = length (dataSource st)" by (simp add: down)
  show "dataSource (moveData Down st) ! (i + 1) = dataSource st ! i"
    using p by (simp add: down)
  show "dataSource (moveData Down st) ! i = dataSource st ! (i + 1)"
    using assms(1) p by (simp add: down)
  show "\<forall>n<length (dataSource st). n \<noteq> i \<and> n \<noteq> i + 1 \<longrightarrow>
      dataSource (moveData Down st) ! n = dataSource st ! n"
    by (simp add: down)
qed

theorem moveData_neighbour_witness:
  "key (dataSource (abc ''B'') ! 1) = editingKey (abc ''B'') \<and>
   dataSource (moveData Up (abc ''B'')) ! 0 = row ''B'' \<and>
   dataSource (moveData Up (abc ''B'')) ! 1 = row ''A'' \<and>
   dataSource (moveData Up (abc ''B'')) ! 2 = row ''C'' \<and>
   dataSource (moveData Down (abc ''B'')) ! 2 = row ''B'' \<and>
   dataSource (moveData Down (abc ''B'')) ! 1 = row ''C'' \<and>
   dataSource (moveData Down (abc ''B'')) ! 0 = row ''A'' \<and>
   moveData Up (abc ''A'') = abc ''A'' \<and>
   moveData Down (abc ''C'') = abc ''C''"
proof -
  have b: "1 < length (dataSource (abc ''B''))"
    "key (dataSource (abc ''B'') ! 1) = editingKey (abc ''B'')"
    "\<forall>n<1. key (dataSource (abc ''B'') ! n) \<noteq> editingKey (abc ''B'')"
    by (simp_all add: abc_def row_def)
  have a: "0 < length (dataSource (abc ''A''))"
    "key (dataSource (abc ''A'') ! 0) = editingKey (abc ''A'')"
    "\<forall>n<0. key (dataSource (abc ''A'') ! n) \<noteq> editingKey (abc ''A'')"
    by (simp_all add: abc_def row_def)
  have c: "2 < length (dataSource (abc ''C''))"
    "key (dataSource (abc ''C'') ! 2) = editingKey (abc ''C'')"
    "\<forall>n<2. key (dataSource (abc ''C'') ! n) \<noteq> editingKey (abc ''C'')"
    by (simp_all add: abc_def row_def less_2_cases_iff)
  have l: "length (dataSource (abc ''B'')) = 3" "length (dataSource (abc ''C'')) = 3"
    by (simp_all add: abc_def)
  from moveData_neighbour[OF b] l(1)
  have "dataSource (moveData Up (abc ''B'')) ! 0 = dataSource (abc ''B'') ! 1"
    "dataSource (moveData Up (abc ''B'')) ! 1 = dataSource (abc ''B'') ! 0"
    "dataSource (moveData Up (abc ''B'')) ! 2 = dataSource (abc ''B'') ! 2"
    "dataSource (moveData Down (abc ''B'')) ! 2 = dataSource (abc ''B'') ! 1"
    "dataSource (moveData Down (abc ''B'')) ! 1 = dataSource (abc ''B'') ! 2"
    "dataSource (moveData Down (abc ''B'')) ! 0 = dataSource (abc ''B'') ! 0"
    by (simp_all add: numeral_2_eq_2 numeral_3_eq_3 All_less_Suc)
  moreover from moveData_neighbour[OF a] have "moveData Up (abc ''A'') = abc ''A''" by simp
  moreover from moveData_neighbour[OF c] l(2) have "moveData Down (abc ''C'') = abc ''C''" by simp
  ultimately show ?thesis using b(2) by (simp add: abc_def numeral_2_eq_2)
qed

section \<open>Adding and deleting\<close>

text \<open>
  Claim C4. \<open>addData\<close> makes the list one longer; the last record is the new one, with the
  generated key, an empty name, no length, no field type, not nullable and no comment; the
  records before it are the old list; the edit session is on the new key. When the generated
  key is not a key of the old list, the new record is the only one with that key.
\<close>

theorem addData_appends:
  "length (dataSource (addData k st)) = length (dataSource st) + 1 \<and>
   last (dataSource (addData k st)) =
     \<lparr>key = k, columnName = '''', length_f = None, fieldType = None, nullable = False,
      comment = None\<rparr> \<and>
   butlast (dataSource (addData k st)) = dataSource st \<and>
   editingKey (addData k st) = k \<and>
   (k \<notin> key ` set (dataSource st) \<longrightarrow>
      (\<forall>n<length (dataSource (addData k st)).
         (key (dataSource (addData k st) ! n) = k) = (n = length (dataSource st))))"
proof -
  have ds: "dataSource (addData k st) = dataSource st @
      [\<lparr>key = k, columnName = '''', length_f = None, fieldType = None, nullable = False,
        comment = None\<rparr>]"
    and ek: "editingKey (addData k st) = k"
    by (simp_all add: addData_def edit_def Let_def)
  have fresh: "(key (dataSource (addData k st) ! n) = k) = (n = length (dataSource st))"
    if "k \<notin> key ` set (dataSource st)" "n < length (dataSource (addData k st))" for n
  proof (cases "n < length (dataSource st)")
    case True
    then have "dataSource st ! n \<in> set (dataSource st)" by simp
    with that(1) have "key (dataSource st ! n) \<noteq> k" by (auto simp: image_iff)
    with True show ?thesis by (simp add: ds nth_append)
  next
    case False
    with that(2) have "n = length (dataSource st)" by (simp add: ds)
    then show ?thesis by (simp add: ds)
  qed
  show ?thesis using fresh by (simp add: ds ek)
qed

theorem addData_appends_witness:
  "''D'' \<notin> key ` set (dataSource (abc '''')) \<and>
   length (dataSource (addData ''D'' (abc ''''))) = 4 \<and>
   key (last (dataSource (addData ''D'' (abc '''')))) = ''D'' \<and>
   key (dataSource (addData ''D'' (abc '''')) ! 3) = ''D'' \<and>
   key (dataSource (addData ''D'' (abc '''')) ! 0) \<noteq> ''D'' \<and>
   editingKey (addData ''D'' (abc '''')) = ''D''"
proof -
  have h: "''D'' \<notin> key ` set (dataSource (abc ''''))"
    by (simp add: abc_def row_def)
  have l: "length (dataSource (abc '''')) = 3" by (simp add: abc_def)
  from addData_appends[of "''D''" "abc ''''"] h l
  have c: "length (dataSource (addData ''D'' (abc ''''))) = 4"
    "key (last (dataSource (addData ''D'' (abc '''')))) = ''D''"
    "editingKey (addData ''D'' (abc '''')) = ''D''"
    "\<forall>n<4. (key (dataSource (addData ''D'' (abc '''')) ! n) = ''D'') = (n = 3)"
    by simp_all
  from c(4) have "key (dataSource (addData ''D'' (abc '''')) ! 3) = ''D''"
    "key (dataSource (addData ''D'' (abc '''')) ! 0) \<noteq> ''D''"
    by simp_all
  with h c show ?thesis by simp
qed

lemma distinct_keys_filter:
  assumes d: "distinct (map key xs)" and i: "i < length xs"
  shows "filter (\<lambda>r. key r \<noteq> key (xs ! i)) xs = take i xs @ drop (Suc i) xs"
proof -
  have split: "xs = take i xs @ [xs ! i] @ drop (Suc i) xs"
    using i by (simp add: id_take_nth_drop[symmetric])
  have "distinct (map key (take i xs @ [xs ! i] @ drop (Suc i) xs))"
    using d split by simp
  then have a: "\<forall>r\<in>set (take i xs). key r \<noteq> key (xs ! i)"
    and b: "\<forall>r\<in>set (drop (Suc i) xs). key r \<noteq> key (xs ! i)"
    by (auto simp: image_iff)
  have "filter (\<lambda>r. key r \<noteq> key (xs ! i)) (take i xs @ [xs ! i] @ drop (Suc i) xs)
        = take i xs @ drop (Suc i) xs"
    using a b by simp
  with split show ?thesis by simp
qed

text \<open>
  Claim C5. In a list with unique identifiers, when the record at index \<open>i\<close> has the key of
  the edit session, \<open>deleteData\<close> yields the list without that record (one shorter, the
  others unchanged and in order), and no record with that key remains. When no record has
  the key of the edit session, the state stays as it is: that is so with no session (the key
  is the empty string of the mount, which is the key of no record), and also with the key a
  deleted record has left behind.
\<close>

theorem deleteData_removes:
  "(unique_ids st \<longrightarrow> i < length (dataSource st) \<longrightarrow> key (dataSource st ! i) = editingKey st \<longrightarrow>
      dataSource (deleteData st) = take i (dataSource st) @ drop (Suc i) (dataSource st) \<and>
      length (dataSource (deleteData st)) + 1 = length (dataSource st) \<and>
      editingKey st \<notin> key ` set (dataSource (deleteData st))) \<and>
   (editingKey st \<notin> key ` set (dataSource st) \<longrightarrow>
      dataSource (deleteData st) = dataSource st \<and> deleteData st = st)"
proof (intro conjI impI)
  assume u: "unique_ids st" and i: "i < length (dataSource st)"
    and k: "key (dataSource st ! i) = editingKey st"
  have f: "dataSource (deleteData st) = take i (dataSource st) @ drop (Suc i) (dataSource st)"
    using distinct_keys_filter[of "dataSource st" i] u i k
    by (simp add: deleteData_def unique_ids_def)
  show "dataSource (deleteData st) = take i (dataSource st) @ drop (Suc i) (dataSource st)"
    by (rule f)
  show "length (dataSource (deleteData st)) + 1 = length (dataSource st)"
    using i by (simp add: f)
  show "editingKey st \<notin> key ` set (dataSource (deleteData st))"
    by (auto simp: deleteData_def)
next
  assume "editingKey st \<notin> key ` set (dataSource st)"
  then have "\<forall>r\<in>set (dataSource st). key r \<noteq> editingKey st" by (auto simp: image_iff)
  then have keep: "filter (\<lambda>r. key r \<noteq> editingKey st) (dataSource st) = dataSource st"
    by simp
  show "dataSource (deleteData st) = dataSource st"
    by (simp add: deleteData_def keep)
  show "deleteData st = st"
    by (simp add: deleteData_def keep)
qed

theorem deleteData_removes_witness:
  "unique_ids (abc ''B'') \<and> key (dataSource (abc ''B'') ! 1) = editingKey (abc ''B'') \<and>
   dataSource (deleteData (abc ''B'')) = [row ''A'', row ''C''] \<and>
   length (dataSource (deleteData (abc ''B''))) + 1 = 3 \<and>
   editingKey (abc '''') = '''' \<and> '''' \<notin> key ` set (dataSource (abc '''')) \<and>
   deleteData (abc '''') = abc '''' \<and>
   editingKey (deleteData (abc ''B'')) = ''B'' \<and>
   ''B'' \<notin> key ` set (dataSource (deleteData (abc ''B''))) \<and>
   deleteData (deleteData (abc ''B'')) = deleteData (abc ''B'')"
proof -
  have h: "unique_ids (abc ''B'')" "1 < length (dataSource (abc ''B''))"
    "key (dataSource (abc ''B'') ! 1) = editingKey (abc ''B'')"
    by (simp_all add: unique_ids_def abc_def row_def)
  have g: "editingKey (abc '''') = ''''"
    "editingKey (abc '''') \<notin> key ` set (dataSource (abc ''''))"
    by (simp_all add: abc_def row_def)
  have s: "editingKey (deleteData (abc ''B'')) = ''B''"
    "editingKey (deleteData (abc ''B'')) \<notin> key ` set (dataSource (deleteData (abc ''B'')))"
    by (simp_all add: deleteData_def abc_def row_def)
  have first: "dataSource (deleteData (abc ''B'')) = [row ''A'', row ''C'']"
    "length (dataSource (deleteData (abc ''B''))) + 1 = 3"
    using h deleteData_removes[of "abc ''B''" 1] by (simp_all add: abc_def)
  have none: "deleteData (abc '''') = abc ''''"
    using g(2) deleteData_removes[of "abc ''''" 0] by simp
  have stale: "deleteData (deleteData (abc ''B'')) = deleteData (abc ''B'')"
    using s(2) deleteData_removes[of "deleteData (abc ''B'')" 0] by simp
  show ?thesis
    using h(1,3) g s first none stale deleteData_removes[of "abc ''B''" 1] by simp
qed

section \<open>Changes in the form\<close>

lemma key_spread: "key (spread i newData) = key i"
  by (simp add: spread_def)

lemma formChange_keys: "map key (dataSource (formChange newData st)) = map key (dataSource st)"
  by (simp add: formChange_def key_spread)

text \<open>
  Claim C7. \<open>formChange\<close> keeps the edit session, the length of the list and the keys in
  their order. A record whose key is not the session's is unchanged. A record whose key is
  the session's keeps its key, and each of its other fields takes the value the form holds
  for it, or keeps its own value when the form holds none.
\<close>

theorem formChange_merges:
  "editingKey (formChange newData st) = editingKey st \<and>
   length (dataSource (formChange newData st)) = length (dataSource st) \<and>
   map key (dataSource (formChange newData st)) = map key (dataSource st) \<and>
   (\<forall>n<length (dataSource st).
      (key (dataSource st ! n) \<noteq> editingKey st \<longrightarrow>
         dataSource (formChange newData st) ! n = dataSource st ! n) \<and>
      (key (dataSource st ! n) = editingKey st \<longrightarrow>
         key (dataSource (formChange newData st) ! n) = editingKey st \<and>
         columnName (dataSource (formChange newData st) ! n) =
           (case v_columnName newData of None \<Rightarrow> columnName (dataSource st ! n) | Some v \<Rightarrow> v) \<and>
         length_f (dataSource (formChange newData st) ! n) =
           (case v_length newData of None \<Rightarrow> length_f (dataSource st ! n) | Some v \<Rightarrow> v) \<and>
         fieldType (dataSource (formChange newData st) ! n) =
           (case v_fieldType newData of None \<Rightarrow> fieldType (dataSource st ! n) | Some v \<Rightarrow> v) \<and>
         nullable (dataSource (formChange newData st) ! n) =
           (case v_nullable newData of None \<Rightarrow> nullable (dataSource st ! n) | Some v \<Rightarrow> v) \<and>
         comment (dataSource (formChange newData st) ! n) =
           (case v_comment newData of None \<Rightarrow> comment (dataSource st ! n) | Some v \<Rightarrow> v)))"
proof -
  have "editingKey (formChange newData st) = editingKey st"
    and "length (dataSource (formChange newData st)) = length (dataSource st)"
    by (simp_all add: formChange_def)
  moreover have "dataSource (formChange newData st) ! n =
      (if key (dataSource st ! n) = editingKey st then spread (dataSource st ! n) newData
       else dataSource st ! n)" if "n < length (dataSource st)" for n
    using that by (simp add: formChange_def)
  ultimately show ?thesis
    by (simp add: formChange_keys spread_def)
qed

theorem formChange_merges_witness:
  "key (dataSource (abc ''B'') ! 1) = editingKey (abc ''B'') \<and>
   key (dataSource (abc ''B'') ! 0) \<noteq> editingKey (abc ''B'') \<and>
   v_columnName name_x = Some ''x'' \<and> v_fieldType name_x = None \<and>
   editingKey (formChange name_x (abc ''B'')) = ''B'' \<and>
   length (dataSource (formChange name_x (abc ''B''))) = 3 \<and>
   dataSource (formChange name_x (abc ''B'')) ! 0 = row ''A'' \<and>
   key (dataSource (formChange name_x (abc ''B'')) ! 1) = ''B'' \<and>
   columnName (dataSource (formChange name_x (abc ''B'')) ! 1) = ''x'' \<and>
   fieldType (dataSource (formChange name_x (abc ''B'')) ! 1) = None"
proof -
  have h: "key (dataSource (abc ''B'') ! 1) = editingKey (abc ''B'')"
    "key (dataSource (abc ''B'') ! 0) \<noteq> editingKey (abc ''B'')"
    "length (dataSource (abc ''B'')) = 3"
    by (simp_all add: abc_def row_def)
  have v: "dataSource (abc ''B'') ! 0 = row ''A''" "fieldType (dataSource (abc ''B'') ! 1) = None"
    "editingKey (abc ''B'') = ''B''" "v_columnName name_x = Some ''x''"
    "v_fieldType name_x = None"
    by (simp_all add: abc_def row_def name_x_def)
  show ?thesis
    using h v formChange_merges[of name_x "abc ''B''"]
    by simp
qed

section \<open>The table metadata\<close>

lemma tableDetails_list:
  "columnList d = Some cl \<Longrightarrow>
   dataSource (tableDetailsEffect uuidv4 (Some d) st) =
     map (\<lambda>n. toItem (uuidv4 n) (cl ! n)) [0 ..< length cl]"
  by (auto simp: tableDetailsEffect_def intro!: nth_equalityI)

lemma tableDetails_keys:
  "columnList d = Some cl \<Longrightarrow>
   map key (dataSource (tableDetailsEffect uuidv4 (Some d) st)) = map uuidv4 [0 ..< length cl]"
  by (simp add: tableDetails_list toItem_def)

text \<open>
  Claim C8, as the code has it. The effect is guarded by \<open>if (tableDetails)\<close>: with the
  metadata object absent it does not run and the state stays as it was (so the list is empty
  only if it was, as at mount). With the metadata object present and its column list absent
  or empty, the list becomes empty.
\<close>

theorem tableDetails_missing:
  "tableDetailsEffect uuidv4 None st = st \<and>
   dataSource (tableDetailsEffect uuidv4 None initial) = [] \<and>
   (columnList d = None \<longrightarrow> dataSource (tableDetailsEffect uuidv4 (Some d) st) = []) \<and>
   (columnList d = Some [] \<longrightarrow> dataSource (tableDetailsEffect uuidv4 (Some d) st) = [])"
  by (simp add: tableDetailsEffect_def initial_def)

theorem tableDetails_missing_witness:
  "columnList \<lparr>columnList = None\<rparr> = None \<and>
   dataSource (tableDetailsEffect uuid_example (Some \<lparr>columnList = None\<rparr>) (abc '''')) = [] \<and>
   columnList \<lparr>columnList = Some []\<rparr> = Some [] \<and>
   dataSource (tableDetailsEffect uuid_example (Some \<lparr>columnList = Some []\<rparr>) (abc '''')) = [] \<and>
   tableDetailsEffect uuid_example None (abc '''') = abc ''''"
  using tableDetails_missing[of uuid_example "abc ''''" "\<lparr>columnList = None\<rparr>"]
    tableDetails_missing[of uuid_example "abc ''''" "\<lparr>columnList = Some []\<rparr>"]
  by simp

text \<open>A list of three records stays when the metadata object is absent.\<close>

theorem tableDetails_absent_keeps_list:
  "dataSource (tableDetailsEffect uuid_example None (abc '''')) \<noteq> []"
  by (simp add: tableDetailsEffect_def abc_def)

text \<open>
  Claim C10. For the \<open>n\<close>-th row \<open>t\<close> of the column list, the \<open>n\<close>-th record has
  \<open>nullable\<close> true exactly when \<open>t.nullable\<close> is \<open>0\<close>, has \<open>t.dataType\<close> as its length and
  \<open>t.columnType\<close> as its field type (and \<open>t.name\<close> and \<open>t.comment\<close> as name and comment);
  the list has one record for each row.
\<close>

theorem normalization_fields:
  assumes "columnList d = Some cl" "n < length cl"
  shows "length (dataSource (tableDetailsEffect uuidv4 (Some d) st)) = length cl \<and>
         nullable (dataSource (tableDetailsEffect uuidv4 (Some d) st) ! n) =
           (TableColumn.nullable (cl ! n) = Some 0) \<and>
         length_f (dataSource (tableDetailsEffect uuidv4 (Some d) st) ! n) = dataType (cl ! n) \<and>
         fieldType (dataSource (tableDetailsEffect uuidv4 (Some d) st) ! n) = columnType (cl ! n) \<and>
         columnName (dataSource (tableDetailsEffect uuidv4 (Some d) st) ! n) = name (cl ! n) \<and>
         comment (dataSource (tableDetailsEffect uuidv4 (Some d) st) ! n) =
           TableColumn.comment (cl ! n)"
  using assms by (simp add: tableDetails_list toItem_def)

theorem normalization_fields_witness:
  "columnList \<lparr>columnList = Some columns_example\<rparr> = Some columns_example \<and>
   length columns_example = 2 \<and>
   TableColumn.nullable (columns_example ! 0) = Some 1 \<and>
   TableColumn.nullable (columns_example ! 1) = Some 0 \<and>
   length (dataSource (tableDetailsEffect uuid_example
      (Some \<lparr>columnList = Some columns_example\<rparr>) initial)) = 2 \<and>
   \<not> nullable (dataSource (tableDetailsEffect uuid_example
      (Some \<lparr>columnList = Some columns_example\<rparr>) initial) ! 0) \<and>
   nullable (dataSource (tableDetailsEffect uuid_example
      (Some \<lparr>columnList = Some columns_example\<rparr>) initial) ! 1) \<and>
   length_f (dataSource (tableDetailsEffect uuid_example
      (Some \<lparr>columnList = Some columns_example\<rparr>) initial) ! 1) = Some 12 \<and>
   fieldType (dataSource (tableDetailsEffect uuid_example
      (Some \<lparr>columnList = Some columns_example\<rparr>) initial) ! 1) = Some ''VARCHAR''"
proof -
  have h: "columnList \<lparr>columnList = Some columns_example\<rparr> = Some columns_example"
    "0 < length columns_example" "1 < length columns_example"
    by (simp_all add: columns_example_def)
  have v: "length columns_example = 2"
    "TableColumn.nullable (columns_example ! 0) = Some 1"
    "TableColumn.nullable (columns_example ! 1) = Some 0"
    "dataType (columns_example ! 1) = Some 12"
    "columnType (columns_example ! 1) = Some ''VARCHAR''"
    by (simp_all add: columns_example_def)
  show ?thesis
    using h(1) v normalization_fields[OF h(1) h(2), of uuid_example initial]
      normalization_fields[OF h(1) h(3), of uuid_example initial]
    by simp
qed

section \<open>Unique identifiers\<close>

text \<open>
  Claim C9. From a list with unique identifiers, \<open>addData\<close> with a key that is not in the
  list, \<open>deleteData\<close>, \<open>moveData\<close> and the end of a drag all yield a list with unique
  identifiers. The end of a drag yields a list of records whenever the list is not empty.
\<close>

theorem ids_stay_unique:
  assumes "unique_ids st"
  shows "(k \<notin> key ` set (dataSource st) \<longrightarrow> unique_ids (addData k st)) \<and>
         unique_ids (deleteData st) \<and>
         unique_ids (moveData action st) \<and>
         (\<forall>st'. onDragEnd active over st = Some st' \<longrightarrow> unique_ids st') \<and>
         (dataSource st \<noteq> [] \<longrightarrow> (\<exists>st'. onDragEnd active over st = Some st'))"
proof (intro conjI impI allI)
  show "unique_ids (addData k st)" if "k \<notin> key ` set (dataSource st)"
    using that assms by (simp add: unique_ids_def addData_def edit_def Let_def)
  show "unique_ids (deleteData st)"
    using assms by (simp add: unique_ids_def deleteData_def distinct_map_filter)
  show "unique_ids (moveData action st)"
    using assms mset_distinct_keys[of "dataSource (moveData action st)" "dataSource st"]
    by (simp add: unique_ids_def moveData_mset)
  show "unique_ids st'" if "onDragEnd active over st = Some st'" for st'
    using assms onDragEnd_mset[OF that] mset_distinct_keys[of "dataSource st'" "dataSource st"]
    by (simp add: unique_ids_def)
  show "\<exists>st'. onDragEnd active over st = Some st'" if "dataSource st \<noteq> []"
    using that by (rule onDragEnd_total)
qed

theorem ids_stay_unique_witness:
  "unique_ids (abc ''B'') \<and> ''D'' \<notin> key ` set (dataSource (abc ''B'')) \<and>
   dataSource (abc ''B'') \<noteq> [] \<and>
   unique_ids (addData ''D'' (abc ''B'')) \<and>
   unique_ids (deleteData (abc ''B'')) \<and>
   unique_ids (moveData Up (abc ''B'')) \<and>
   onDragEnd ''C'' (Some ''A'') (abc ''B'') =
     Some \<lparr>dataSource = [row ''C'', row ''A'', row ''B''], editingKey = ''B''\<rparr> \<and>
   unique_ids \<lparr>dataSource = [row ''C'', row ''A'', row ''B''], editingKey = ''B''\<rparr>"
proof -
  have h: "unique_ids (abc ''B'')" "''D'' \<notin> key ` set (dataSource (abc ''B''))"
    "dataSource (abc ''B'') \<noteq> []"
    by (simp_all add: unique_ids_def abc_def row_def)
  have d: "onDragEnd ''C'' (Some ''A'') (abc ''B'') =
      Some \<lparr>dataSource = [row ''C'', row ''A'', row ''B''], editingKey = ''B''\<rparr>"
    by (simp add: onDragEnd_def findIndex_def arrayMove_def splice_def Let_def abc_def row_def)
  show ?thesis
    using h d ids_stay_unique[OF h(1), of "''D''" Up "''C''" "Some ''A''"]
    by simp
qed

text \<open>Every state the component reaches has unique identifiers, none of them empty.\<close>

lemma reachable_ids:
  "reachable st \<Longrightarrow> unique_ids st \<and> '''' \<notin> key ` set (dataSource st)"
proof (induction rule: reachable.induct)
  case r_mount
  then show ?case by (simp add: initial_def unique_ids_def)
next
  case (r_edit st r)
  then show ?case by (simp add: edit_def unique_ids_def)
next
  case (r_tableDetails st uuidv4 tableDetails)
  show ?case
  proof (cases tableDetails)
    case None
    with r_tableDetails.IH show ?thesis by (simp add: tableDetailsEffect_def unique_ids_def)
  next
    case (Some d)
    show ?thesis
    proof (cases "columnList d")
      case None
      with Some show ?thesis by (simp add: tableDetailsEffect_def unique_ids_def)
    next
      case (Some cl)
      have k: "map key (dataSource (tableDetailsEffect uuidv4 tableDetails st)) =
          map uuidv4 [0 ..< length cl]"
        using Some \<open>tableDetails = Some d\<close> by (simp add: tableDetails_keys)
      have "distinct (map uuidv4 [0 ..< length cl])"
        using r_tableDetails.hyps(2) by (simp add: distinct_map inj_on_def inj_def)
      moreover have "'''' \<notin> set (map uuidv4 [0 ..< length cl])"
        using r_tableDetails.hyps(3) by auto
      ultimately show ?thesis
        unfolding unique_ids_def k set_map[symmetric] by simp
    qed
  qed
next
  case (r_formChange st newData)
  have "key ` set (dataSource (formChange newData st)) = key ` set (dataSource st)"
    using formChange_keys[of newData st] by (metis set_map)
  with r_formChange.IH show ?case by (simp add: unique_ids_def formChange_keys)
next
  case (r_addData st k)
  then show ?case by (auto simp: unique_ids_def addData_def edit_def Let_def)
next
  case (r_deleteData st)
  then show ?case by (auto simp: unique_ids_def deleteData_def distinct_map_filter)
next
  case (r_moveData st action)
  then show ?case
    using moveData_mset[of action st]
      mset_keys[of "dataSource (moveData action st)" "dataSource st"]
      mset_distinct_keys[of "dataSource (moveData action st)" "dataSource st"]
    by (simp add: unique_ids_def)
next
  case (r_onDragEnd st active over st')
  then show ?case
    using onDragEnd_mset[OF r_onDragEnd.hyps(2)]
      mset_keys[of "dataSource st'" "dataSource st"]
      mset_distinct_keys[of "dataSource st'" "dataSource st"]
    by (simp add: unique_ids_def)
qed

section \<open>The edit session\<close>

text \<open>
  Claim C2, as the code has it. No handler ever resets \<open>editingKey\<close>. After \<open>addData\<close>,
  and after \<open>edit\<close> of a record of the list, the session points into the list; \<open>formChange\<close>,
  \<open>moveData\<close> and the end of a drag keep it pointing into the list. \<open>deleteData\<close> and the
  reload of the table metadata leave \<open>editingKey\<close> as it is, and after \<open>deleteData\<close> no
  record of the list has that key.
\<close>

theorem session_after_operations:
  "session_present (addData k st) \<and>
   (record \<in> set (dataSource st) \<longrightarrow> session_present (edit record st)) \<and>
   (session_present st \<longrightarrow> session_present (formChange newData st)) \<and>
   (session_present st \<longrightarrow> session_present (moveData action st)) \<and>
   (session_present st \<longrightarrow> (\<forall>st'. onDragEnd active over st = Some st' \<longrightarrow> session_present st')) \<and>
   editingKey (deleteData st) = editingKey st \<and>
   editingKey st \<notin> key ` set (dataSource (deleteData st)) \<and>
   editingKey (tableDetailsEffect uuidv4 tableDetails st) = editingKey st"
proof (intro conjI impI allI)
  show "session_present (addData k st)"
    by (simp add: session_present_def addData_def edit_def Let_def)
  show "session_present (edit record st)" if "record \<in> set (dataSource st)"
    using that by (simp add: session_present_def edit_def)
  show "session_present (formChange newData st)" if "session_present st"
  proof -
    have "key ` set (dataSource (formChange newData st)) = key ` set (dataSource st)"
      using formChange_keys[of newData st] by (metis set_map)
    with that show ?thesis by (simp add: session_present_def formChange_def)
  qed
  show "session_present (moveData action st)" if "session_present st"
    using that moveData_mset[of action st]
      mset_keys[of "dataSource (moveData action st)" "dataSource st"]
    by (simp add: session_present_def)
  show "session_present st'" if "session_present st" "onDragEnd active over st = Some st'" for st'
    using that(1) onDragEnd_mset[OF that(2)] mset_keys[of "dataSource st'" "dataSource st"]
    by (simp add: session_present_def)
  show "editingKey (deleteData st) = editingKey st"
    by (simp add: deleteData_def)
  show "editingKey st \<notin> key ` set (dataSource (deleteData st))"
    by (auto simp: deleteData_def)
  show "editingKey (tableDetailsEffect uuidv4 tableDetails st) = editingKey st"
    by (simp add: tableDetailsEffect_def split: option.splits)
qed

theorem session_after_operations_witness:
  "session_present (abc ''B'') \<and> row ''A'' \<in> set (dataSource (abc ''B'')) \<and>
   session_present (addData ''D'' (abc ''B'')) \<and>
   session_present (edit (row ''A'') (abc ''B'')) \<and>
   session_present (formChange name_x (abc ''B'')) \<and>
   session_present (moveData Up (abc ''B'')) \<and>
   onDragEnd ''C'' (Some ''A'') (abc ''B'') =
     Some \<lparr>dataSource = [row ''C'', row ''A'', row ''B''], editingKey = ''B''\<rparr> \<and>
   session_present \<lparr>dataSource = [row ''C'', row ''A'', row ''B''], editingKey = ''B''\<rparr> \<and>
   editingKey (deleteData (abc ''B'')) = ''B'' \<and>
   ''B'' \<notin> key ` set (dataSource (deleteData (abc ''B'')))"
proof -
  have h: "session_present (abc ''B'')" "row ''A'' \<in> set (dataSource (abc ''B''))"
    by (simp_all add: session_present_def abc_def row_def)
  have d: "onDragEnd ''C'' (Some ''A'') (abc ''B'') =
      Some \<lparr>dataSource = [row ''C'', row ''A'', row ''B''], editingKey = ''B''\<rparr>"
    by (simp add: onDragEnd_def findIndex_def arrayMove_def splice_def Let_def abc_def row_def)
  show ?thesis
    using h d session_after_operations[of "''D''" "abc ''B''" "row ''A''"
        name_x Up "''C''" "Some ''A''"]
    by (simp add: abc_def)
qed

text \<open>
  Adding a record at mount and deleting it leaves the session set on a key that no record
  has.
\<close>

theorem session_dangles_after_delete:
  "reachable (deleteData (addData ''k'' initial)) \<and>
   editingKey (deleteData (addData ''k'' initial)) = ''k'' \<and>
   dataSource (deleteData (addData ''k'' initial)) = [] \<and>
   \<not> session_present (deleteData (addData ''k'' initial))"
proof -
  have "reachable (addData ''k'' initial)"
    by (rule r_addData[OF r_mount]) (simp_all add: initial_def)
  then have "reachable (deleteData (addData ''k'' initial))"
    by (rule r_deleteData)
  then show ?thesis
    by (simp add: session_present_def deleteData_def addData_def edit_def initial_def Let_def)
qed

end
